theory Spec2Isabelle
  imports Main "HOL-Library.Sublist"
begin

section \<open>Strings\<close>

text \<open>
  A Python \<open>str\<close> is modelled as a \<open>string\<close> whose characters are the code points below
  256. On that range \<open>\s\<close> of the \<open>re\<close> module and \<open>str.strip()\<close> agree on what whitespace is
  (code points 9 to 13, 28 to 32, 133 and 160), and \<open>str.lower()\<close> maps every character to
  one character.
\<close>

definition is_space :: "char \<Rightarrow> bool" where
  "is_space c =
     (let n = (of_char c :: nat)
      in (9 \<le> n \<and> n \<le> 13) \<or> (28 \<le> n \<and> n \<le> 32) \<or> n = 133 \<or> n = 160)"

definition lower_char :: "char \<Rightarrow> char" where
  "lower_char c =
     (let n = (of_char c :: nat)
      in if (65 \<le> n \<and> n \<le> 90) \<or> (192 \<le> n \<and> n \<le> 222 \<and> n \<noteq> 215)
         then char_of (n + 32) else c)"

definition lower :: "string \<Rightarrow> string" where
  "lower s = map lower_char s"

text \<open>\<open>s.strip()\<close>: leading and trailing whitespace removed.\<close>

definition strip :: "string \<Rightarrow> string" where
  "strip s = rev (dropWhile is_space (rev (dropWhile is_space s)))"

text \<open>
  \<open>s.replace(old, "")\<close>: the occurrences of \<open>old\<close> are found from the left, without
  overlap, and deleted in one pass. With an empty \<open>old\<close> Python inserts the (empty)
  replacement between the characters, which gives \<open>s\<close> back.
\<close>

function replace_empty :: "string \<Rightarrow> string \<Rightarrow> string" where
  "replace_empty old [] = []"
| "replace_empty old (c # cs) =
     (if old \<noteq> [] \<and> prefix old (c # cs)
      then replace_empty old (drop (length old) (c # cs))
      else c # replace_empty old cs)"
  by pat_completeness auto
termination
  by (relation "measure (\<lambda>(old, s). length s)") (auto simp: Suc_le_eq)

text \<open>
  One anchored match of the pattern \<open>https?://\S+\<close> at the start of \<open>s\<close>: the matched
  text and what follows it. \<open>\S+\<close> is greedy and nothing follows it in the pattern, so the
  match runs up to the next whitespace character.
\<close>

definition match_url :: "string \<Rightarrow> (string \<times> string) option" where
  "match_url s =
     (let n = (if prefix ''https://'' s then 8 else if prefix ''http://'' s then 7 else 0);
          body = takeWhile (\<lambda>c. \<not> is_space c) (drop n s)
      in if n = 0 \<or> body = [] then None
         else Some (take n s @ body, dropWhile (\<lambda>c. \<not> is_space c) (drop n s)))"

text \<open>\<open>re.findall(r'https?://\S+', s)\<close>: the matches from left to right, without overlap.\<close>

function findall :: "string \<Rightarrow> string list" where
  "findall [] = []"
| "findall (c # cs) =
     (case match_url (c # cs) of
        Some (u, r) \<Rightarrow> u # findall r
      | None \<Rightarrow> findall cs)"
  by pat_completeness auto
termination
proof (relation "measure length")
  fix c cs x2 u r
  assume "match_url (c # cs) = Some x2" and "(u, r) = x2"
  then have "\<exists>n>0. r = dropWhile (\<lambda>c. \<not> is_space c) (drop n (c # cs))"
    by (auto simp: match_url_def Let_def split: if_splits)
  then obtain n where "n > 0" and r: "r = dropWhile (\<lambda>c. \<not> is_space c) (drop n (c # cs))"
    by blast
  have "length r \<le> length (drop n (c # cs))"
    unfolding r by (rule length_dropWhile_le)
  with \<open>n > 0\<close> show "(r, c # cs) \<in> measure length" by auto
qed auto

section \<open>Media handling\<close>

definition MEDIA_EXTENSIONS :: "string list" where
  "MEDIA_EXTENSIONS = [''.jpg'', ''.jpeg'', ''.png'', ''.gif'', ''.mp4'', ''.mov'']"

text \<open>The test of line 99: \<open>any(lower_url.endswith(ext) for ext in MEDIA_EXTENSIONS)\<close>.\<close>

definition is_media :: "string \<Rightarrow> bool" where
  "is_media url = (let lower_url = lower url in list_ex (\<lambda>ext. suffix ext lower_url) MEDIA_EXTENSIONS)"

text \<open>The loop of \<open>extract_media_urls\<close> over \<open>found_urls\<close>, with \<open>clean_content\<close> and \<open>urls\<close>.\<close>

fun extract_loop :: "string list \<Rightarrow> string \<Rightarrow> string list \<Rightarrow> string \<times> string list" where
  "extract_loop [] clean_content urls = (clean_content, urls)"
| "extract_loop (url # found_urls) clean_content urls =
     (if is_media url
      then extract_loop found_urls (strip (replace_empty url clean_content)) (urls @ [url])
      else extract_loop found_urls clean_content urls)"

definition extract_media_urls :: "string \<Rightarrow> string \<times> string list" where
  "extract_media_urls content = extract_loop (findall content) content []"

section \<open>Configuration\<close>

text \<open>\<open>s.split(",")\<close>, and the list comprehension of lines 33 and 38.\<close>

fun split_on :: "char \<Rightarrow> string \<Rightarrow> string list" where
  "split_on sep [] = [[]]"
| "split_on sep (c # cs) =
     (if c = sep then [] # split_on sep cs
      else (case split_on sep cs of
              [] \<Rightarrow> [[c]]
            | w # ws \<Rightarrow> (c # w) # ws))"

definition parse_list :: "string \<Rightarrow> string list" where
  "parse_list env = map strip (filter (\<lambda>n. strip n \<noteq> []) (split_on CHR '','' env))"

definition DEFAULT_RELAYS :: "string list" where
  "DEFAULT_RELAYS =
     [''wss://relay.damus.io'', ''wss://nos.lol'', ''wss://relay.nostr.band'',
      ''wss://relay.primal.net'']"

record config =
  MONITORED_NPUBS :: "string list"
  NOSTR_RELAYS :: "string list"
  TWITTER_API_KEY :: "string option"
  TWITTER_API_SECRET :: "string option"
  TWITTER_ACCESS_TOKEN :: "string option"
  TWITTER_ACCESS_SECRET :: "string option"

text \<open>
  The module-level configuration, from the values of the environment variables
  \<open>NOSTR_NPUBS\<close> and \<open>NOSTR_RELAYS\<close> (the empty string when unset) and of the four
  credentials (\<open>None\<close> when unset).
\<close>

definition load_config ::
  "string \<Rightarrow> string \<Rightarrow> string option \<Rightarrow> string option \<Rightarrow> string option \<Rightarrow> string option \<Rightarrow> config" where
  "load_config npubs_env relays_env k s t a =
     \<lparr>MONITORED_NPUBS = parse_list npubs_env,
      NOSTR_RELAYS = (if relays_env \<noteq> [] then parse_list relays_env else DEFAULT_RELAYS),
      TWITTER_API_KEY = k, TWITTER_API_SECRET = s,
      TWITTER_ACCESS_TOKEN = t, TWITTER_ACCESS_SECRET = a\<rparr>"

text \<open>Python's truth value of a credential: set and not empty.\<close>

fun truthy :: "string option \<Rightarrow> bool" where
  "truthy None = False"
| "truthy (Some s) = (s \<noteq> [])"

text \<open>
  \<open>setup_twitter\<close>: both clients are created when all four credentials are there, and
  both stay \<open>None\<close> otherwise. The result says whether they were created.
\<close>

definition setup_twitter :: "config \<Rightarrow> bool" where
  "setup_twitter cfg =
     (truthy (TWITTER_API_KEY cfg) \<and> truthy (TWITTER_API_SECRET cfg) \<and>
      truthy (TWITTER_ACCESS_TOKEN cfg) \<and> truthy (TWITTER_ACCESS_SECRET cfg))"

section \<open>State\<close>

record state =
  last_synced_timestamp :: int
  synced_event_ids :: "string list"

text \<open>
  \<open>save_state\<close> keeps the last 1000 ids in the state it was given (a slice \<open>[-1000:]\<close> of
  a shorter list is the whole list) and writes that state to the file. The value is the
  state after the call, which is also what was written.
\<close>

definition save_state :: "state \<Rightarrow> state" where
  "save_state st =
     st\<lparr>synced_event_ids :=
          drop (length (synced_event_ids st) - 1000) (synced_event_ids st)\<rparr>"

section \<open>Events, the outside world and what a run does to it\<close>

record event =
  event_id :: string
  created_at :: int
  tags :: "string list list"
  content :: string

text \<open>
  Every call that leaves the process is recorded with its result: a download gives a
  path or nothing, an upload gives a media id or raises (\<open>None\<close>), the creation of a tweet
  succeeds or raises (\<open>False\<close>). A \<open>CreateTweet\<close> with an empty list of media ids is the
  call without the \<open>media_ids\<close> argument.
\<close>

datatype action =
    AddRelay string
  | Connect
  | FetchEvents "string list" int
  | DownloadMedia string "string option"
  | MediaUpload string "nat option"
  | CreateTweet string "nat list" bool
  | SaveState state
  | Remove string
  | Sleep

text \<open>
  The answers of the relays and of the destination platform. Those given during the
  loop depend on the moment of the call, counted as the number of actions before it.
\<close>

record world =
  fetch_events :: "string list \<Rightarrow> int \<Rightarrow> event list"
  download_media :: "nat \<Rightarrow> string \<Rightarrow> string option"
  media_upload :: "nat \<Rightarrow> string \<Rightarrow> nat option"
  create_tweet :: "nat \<Rightarrow> string \<Rightarrow> nat list \<Rightarrow> bool"

text \<open>The reply test of lines 220 to 225.\<close>

definition is_reply :: "string list list \<Rightarrow> bool" where
  "is_reply tgs =
     list_ex (\<lambda>t. case t of [] \<Rightarrow> False | k # _ \<Rightarrow> k = ''e'' \<or> k = ''reply'') tgs"

text \<open>
  The download and upload loop of lines 243 to 255: the media ids, the temporary files
  and the actions. \<open>twitter_client\<close> says whether the upload client exists.
\<close>

fun media_loop ::
  "world \<Rightarrow> bool \<Rightarrow> nat \<Rightarrow> string list \<Rightarrow> nat list \<times> string list \<times> action list" where
  "media_loop w twitter_client tick [] = ([], [], [])"
| "media_loop w twitter_client tick (url # urls) =
     (case download_media w tick url of
        None \<Rightarrow>
          (let (media_ids, temp_files, acts) = media_loop w twitter_client (tick + 1) urls
           in (media_ids, temp_files, DownloadMedia url None # acts))
      | Some path \<Rightarrow>
          if twitter_client then
            (case media_upload w (tick + 1) path of
               Some media_id \<Rightarrow>
                 (let (media_ids, temp_files, acts) = media_loop w twitter_client (tick + 2) urls
                  in (media_id # media_ids, path # temp_files,
                      DownloadMedia url (Some path) # MediaUpload path (Some media_id) # acts))
             | None \<Rightarrow>
                 (let (media_ids, temp_files, acts) = media_loop w twitter_client (tick + 2) urls
                  in (media_ids, path # temp_files,
                      DownloadMedia url (Some path) # MediaUpload path None # acts)))
          else
            (let (media_ids, temp_files, acts) = media_loop w twitter_client (tick + 1) urls
             in (media_ids, path # temp_files, DownloadMedia url (Some path) # acts)))"

definition truncate_text :: "string \<Rightarrow> string" where
  "truncate_text clean_text =
     (if length clean_text > 280 then take 277 clean_text @ ''...'' else clean_text)"

text \<open>
  Lines 272 to 277, after a tweet was created: the id is appended, the timestamp is
  raised when the event is newer than \<open>new_last_ts\<close>, and the state is saved.
\<close>

definition record_published :: "state \<Rightarrow> int \<Rightarrow> event \<Rightarrow> state \<times> int" where
  "record_published st new_last_ts e =
     (let st1 = st\<lparr>synced_event_ids := synced_event_ids st @ [event_id e]\<rparr>
      in if created_at e > new_last_ts
         then (save_state (st1\<lparr>last_synced_timestamp := created_at e\<rparr>), created_at e)
         else (save_state st1, new_last_ts))"

text \<open>
  One iteration of the loop over \<open>event_list\<close> (lines 212 to 295): the state and
  \<open>new_last_ts\<close> after it, and its actions. An iteration left by \<open>continue\<close> has none.
\<close>

definition process_event ::
  "world \<Rightarrow> bool \<Rightarrow> bool \<Rightarrow> state \<Rightarrow> int \<Rightarrow> nat \<Rightarrow> event \<Rightarrow> state \<times> int \<times> action list" where
  "process_event w twitter_client twitter_v2 st new_last_ts tick e =
     (if event_id e \<in> set (synced_event_ids st) then (st, new_last_ts, [])
      else if is_reply (tags e) then (st, new_last_ts, [])
      else
        (let (clean_text, media_urls) = extract_media_urls (content e);
             (media_ids, temp_files, acts) = media_loop w twitter_client tick media_urls;
             cleanup = map Remove temp_files @ [Sleep]
         in if twitter_v2 then
              (let text = truncate_text clean_text
               in if create_tweet w (tick + length acts) text media_ids then
                    (let (st', new_last_ts') = record_published st new_last_ts e
                     in (st', new_last_ts',
                         acts @ [CreateTweet text media_ids True, SaveState st'] @ cleanup))
                  else (st, new_last_ts, acts @ [CreateTweet text media_ids False] @ cleanup))
            else (st, new_last_ts, acts @ cleanup)))"

text \<open>The loop: the state after it, and every event with the actions of its iteration.\<close>

fun loop ::
  "world \<Rightarrow> bool \<Rightarrow> bool \<Rightarrow> state \<Rightarrow> int \<Rightarrow> nat \<Rightarrow> event list
     \<Rightarrow> state \<times> (event \<times> action list) list" where
  "loop w twitter_client twitter_v2 st new_last_ts tick [] = (st, [])"
| "loop w twitter_client twitter_v2 st new_last_ts tick (e # es) =
     (let (st', new_last_ts', acts) =
            process_event w twitter_client twitter_v2 st new_last_ts tick e;
          (st'', iters) =
            loop w twitter_client twitter_v2 st' new_last_ts' (tick + length acts) es
      in (st'', (e, acts) # iters))"

record run_result =
  final_state :: state
  prelude :: "action list"
  iterations :: "(event \<times> action list) list"

text \<open>\<open>SyncTool.run\<close>, started with the state that \<open>load_state\<close> gave.\<close>

definition run :: "world \<Rightarrow> config \<Rightarrow> state \<Rightarrow> run_result" where
  "run w cfg st =
     (let tw = setup_twitter cfg
      in if MONITORED_NPUBS cfg = []
         then \<lparr>final_state = st, prelude = [], iterations = []\<rparr>
         else
           (let setup_nostr = map AddRelay (NOSTR_RELAYS cfg) @ [Connect];
                last_ts = last_synced_timestamp st;
                since = last_ts + 1;
                authors = MONITORED_NPUBS cfg;
                event_list = sort_key created_at (fetch_events w authors since);
                pre = setup_nostr @ [FetchEvents authors since]
            in if event_list = []
               then \<lparr>final_state = st, prelude = pre, iterations = []\<rparr>
               else
                 (let (st', iters) = loop w tw tw st last_ts (length pre) event_list
                  in \<lparr>final_state = st', prelude = pre, iterations = iters\<rparr>)))"

text \<open>All the actions of a run, in the order in which they happen.\<close>

definition trace :: "run_result \<Rightarrow> action list" where
  "trace r = prelude r @ concat (map snd (iterations r))"


section \<open>Observing a run\<close>

fun is_media_upload :: "action \<Rightarrow> bool" where
  "is_media_upload (MediaUpload p r) = True"
| "is_media_upload a = False"

fun is_create_tweet :: "action \<Rightarrow> bool" where
  "is_create_tweet (CreateTweet t m ok) = True"
| "is_create_tweet a = False"

fun is_save_state :: "action \<Rightarrow> bool" where
  "is_save_state (SaveState s) = True"
| "is_save_state a = False"

text \<open>The calls to the destination platform: media uploads and tweet creations.\<close>

definition is_publish :: "action \<Rightarrow> bool" where
  "is_publish a = (is_media_upload a \<or> is_create_tweet a)"

text \<open>The timestamps of the events for which a publish call was made, in the order of the calls.\<close>

definition publish_order :: "run_result \<Rightarrow> int list" where
  "publish_order r =
     map (\<lambda>it. created_at (fst it)) (filter (\<lambda>it. list_ex is_publish (snd it)) (iterations r))"

text \<open>A tweet was created: the call returned.\<close>

fun is_posted :: "action \<Rightarrow> bool" where
  "is_posted (CreateTweet t m ok) = ok"
| "is_posted a = False"

text \<open>An iteration that created its tweet, and so recorded its event.\<close>

definition published :: "event \<times> action list \<Rightarrow> bool" where
  "published it = list_ex is_posted (snd it)"

text \<open>The state that the last \<open>save_state\<close> of a list of actions wrote, if there was one.\<close>

fun last_saved :: "action list \<Rightarrow> state option" where
  "last_saved [] = None"
| "last_saved (a # acts) =
     (case last_saved acts of
        Some s \<Rightarrow> Some s
      | None \<Rightarrow> (case a of SaveState s \<Rightarrow> Some s | _ \<Rightarrow> None))"

section \<open>Sample inputs\<close>

text \<open>A world in which the relays return nothing and every call to the platform fails.\<close>

definition failing_world :: world where
  "failing_world =
     \<lparr>fetch_events = (\<lambda>authors since. []),
      download_media = (\<lambda>tick url. None),
      media_upload = (\<lambda>tick path. None),
      create_tweet = (\<lambda>tick text media_ids. False)\<rparr>"

definition sample_state :: state where
  "sample_state = \<lparr>last_synced_timestamp = 50, synced_event_ids = [''a0'']\<rparr>"

definition sample_event :: event where
  "sample_event =
     \<lparr>event_id = ''a1'', created_at = 100, tags = [], content = ''gm https://x.com/a.jpg''\<rparr>"

definition sample_duplicate :: event where
  "sample_duplicate =
     \<lparr>event_id = ''a0'', created_at = 90, tags = [], content = ''seen before''\<rparr>"

text \<open>Three notes that the relays return newest first, in a world where every call succeeds.\<close>

definition note1 :: event where
  "note1 = \<lparr>event_id = ''b1'', created_at = 101, tags = [], content = ''first''\<rparr>"

definition note2 :: event where
  "note2 = \<lparr>event_id = ''b2'', created_at = 102, tags = [], content = ''second''\<rparr>"

definition note3 :: event where
  "note3 = \<lparr>event_id = ''b3'', created_at = 103, tags = [], content = ''third''\<rparr>"

definition ok_world :: world where
  "ok_world =
     \<lparr>fetch_events = (\<lambda>authors since. filter (\<lambda>e. since \<le> created_at e) [note3, note1, note2]),
      download_media = (\<lambda>tick url. Some ''/tmp/tmpab12.jpg''),
      media_upload = (\<lambda>tick path. Some 7),
      create_tweet = (\<lambda>tick text media_ids. True)\<rparr>"

definition sample_config :: config where
  "sample_config =
     load_config ''npub1abc'' [] (Some ''key'') (Some ''secret'') (Some ''token'') (Some ''tsecret'')"

text \<open>No credentials: the dry run.\<close>

definition dry_config :: config where
  "dry_config = load_config ''npub1abc'' [] None None None None"








section \<open>The iterations of the loop\<close>

lemma media_loop_acts:
  "media_loop w tc tick urls = (m, t, acts) \<Longrightarrow>
     list_all (\<lambda>a. \<not> is_create_tweet a \<and> \<not> is_save_state a \<and> (tc \<or> \<not> is_media_upload a)) acts"
  by (induction urls arbitrary: tick m t acts)
     (auto split: option.splits prod.splits if_splits)

lemma process_event_dry:
  "process_event w False False st nts tick e = (st', nts', acts) \<Longrightarrow>
     st' = st \<and> nts' = nts \<and>
     list_all (\<lambda>a. \<not> is_create_tweet a \<and> \<not> is_save_state a \<and> \<not> is_media_upload a) acts"
  by (auto simp: process_event_def list_all_iff split: if_splits prod.splits dest!: media_loop_acts)

lemma loop_dry:
  "loop w False False st nts tick es = (st', iters) \<Longrightarrow>
     st' = st \<and>
     (\<forall>(e, acts) \<in> set iters. list_all (\<lambda>a. \<not> is_create_tweet a \<and> \<not> is_save_state a \<and> \<not> is_media_upload a) acts)"
proof (induction es arbitrary: st nts tick st' iters)
  case Nil
  then show ?case by simp
next
  case (Cons e es)
  obtain s1 n1 a1 where p: "process_event w False False st nts tick e = (s1, n1, a1)"
    by (cases "process_event w False False st nts tick e") auto
  obtain s2 i2 where l: "loop w False False s1 n1 (tick + length a1) es = (s2, i2)"
    by (cases "loop w False False s1 n1 (tick + length a1) es") auto
  from Cons.prems p l have eq: "st' = s2" "iters = (e, a1) # i2" by auto
  from process_event_dry[OF p] Cons.IH[OF l] eq show ?case by auto
qed

lemma process_event_skip:
  "event_id e \<in> set (synced_event_ids st) \<or> is_reply (tags e) \<Longrightarrow>
     process_event w tc tv st nts tick e = (st, nts, [])"
  by (auto simp: process_event_def)

lemma process_event_dry_run:
  "event_id e \<notin> set (synced_event_ids st) \<Longrightarrow> \<not> is_reply (tags e) \<Longrightarrow> \<not> tv \<Longrightarrow>
   extract_media_urls (content e) = (clean, urls) \<Longrightarrow> media_loop w tc tick urls = (m, t, a) \<Longrightarrow>
     process_event w tc tv st nts tick e = (st, nts, a @ map Remove t @ [Sleep])"
  by (simp add: process_event_def)

lemma process_event_failed:
  "event_id e \<notin> set (synced_event_ids st) \<Longrightarrow> \<not> is_reply (tags e) \<Longrightarrow> tv \<Longrightarrow>
   extract_media_urls (content e) = (clean, urls) \<Longrightarrow> media_loop w tc tick urls = (m, t, a) \<Longrightarrow>
   \<not> create_tweet w (tick + length a) (truncate_text clean) m \<Longrightarrow>
     process_event w tc tv st nts tick e =
       (st, nts, a @ [CreateTweet (truncate_text clean) m False] @ map Remove t @ [Sleep])"
  by (simp add: process_event_def)

lemma process_event_published:
  "event_id e \<notin> set (synced_event_ids st) \<Longrightarrow> \<not> is_reply (tags e) \<Longrightarrow> tv \<Longrightarrow>
   extract_media_urls (content e) = (clean, urls) \<Longrightarrow> media_loop w tc tick urls = (m, t, a) \<Longrightarrow>
   create_tweet w (tick + length a) (truncate_text clean) m \<Longrightarrow>
     process_event w tc tv st nts tick e =
       (fst (record_published st nts e), snd (record_published st nts e),
        a @ [CreateTweet (truncate_text clean) m True, SaveState (fst (record_published st nts e))]
          @ map Remove t @ [Sleep])"
  by (simp add: process_event_def split: prod.splits)

lemma process_event_cases:
  assumes "process_event w tc tv st nts tick e = (st', nts', acts)"
  obtains
    (skipped) "event_id e \<in> set (synced_event_ids st) \<or> is_reply (tags e)"
      "st' = st" "nts' = nts" "acts = []"
  | (dry) clean urls m t a where "event_id e \<notin> set (synced_event_ids st)" "\<not> is_reply (tags e)"
      "\<not> tv" "extract_media_urls (content e) = (clean, urls)"
      "media_loop w tc tick urls = (m, t, a)"
      "st' = st" "nts' = nts" "acts = a @ map Remove t @ [Sleep]"
  | (failed) clean urls m t a where "event_id e \<notin> set (synced_event_ids st)" "\<not> is_reply (tags e)"
      "tv" "extract_media_urls (content e) = (clean, urls)"
      "media_loop w tc tick urls = (m, t, a)"
      "\<not> create_tweet w (tick + length a) (truncate_text clean) m"
      "st' = st" "nts' = nts"
      "acts = a @ [CreateTweet (truncate_text clean) m False] @ map Remove t @ [Sleep]"
  | (published) clean urls m t a where "event_id e \<notin> set (synced_event_ids st)" "\<not> is_reply (tags e)"
      "tv" "extract_media_urls (content e) = (clean, urls)"
      "media_loop w tc tick urls = (m, t, a)"
      "create_tweet w (tick + length a) (truncate_text clean) m"
      "(st', nts') = record_published st nts e"
      "acts = a @ [CreateTweet (truncate_text clean) m True, SaveState st'] @ map Remove t @ [Sleep]"
proof -
  obtain clean urls where x: "extract_media_urls (content e) = (clean, urls)"
    by (cases "extract_media_urls (content e)") auto
  obtain m t a where ml: "media_loop w tc tick urls = (m, t, a)"
    by (cases "media_loop w tc tick urls") auto
  show thesis
  proof (cases "event_id e \<in> set (synced_event_ids st) \<or> is_reply (tags e)")
    case True
    from assms True show thesis
      by (intro skipped) (simp_all add: process_event_skip)
  next
    case nskip: False
    show thesis
    proof (cases tv)
      case False
      from nskip have "event_id e \<notin> set (synced_event_ids st)" "\<not> is_reply (tags e)" by auto
      from assms this False x ml show thesis
        by (intro dry[of clean urls m t a]) (simp_all add: process_event_dry_run)
    next
      case tv: True
      from nskip have ns: "event_id e \<notin> set (synced_event_ids st)" "\<not> is_reply (tags e)" by auto
      show thesis
      proof (cases "create_tweet w (tick + length a) (truncate_text clean) m")
        case False
        from assms ns tv x ml False show thesis
          by (intro failed[of clean urls m t a]) (simp_all add: process_event_failed)
      next
        case True
        from assms have "process_event w tc tv st nts tick e = (st', nts', acts)" .
        then have "st' = fst (record_published st nts e)" "nts' = snd (record_published st nts e)"
          "acts = a @ [CreateTweet (truncate_text clean) m True, SaveState st']
                    @ map Remove t @ [Sleep]"
          by (auto simp: process_event_published[OF ns tv x ml True])
        with ns tv x ml True show thesis
          by (intro published[of clean urls m t a]) simp_all
      qed
    qed
  qed
qed

lemma media_loop_no_tweet:
  "media_loop w tc tick urls = (m, t, a) \<Longrightarrow> CreateTweet x y z \<notin> set a"
  by (drule media_loop_acts) (auto simp: list_all_iff)

lemma media_loop_no_save:
  "media_loop w tc tick urls = (m, t, a) \<Longrightarrow> SaveState s \<notin> set a"
  by (drule media_loop_acts) (auto simp: list_all_iff)

lemma loop_Cons:
  "loop w tc tv st nts tick (e # es) =
     (fst (loop w tc tv (fst (process_event w tc tv st nts tick e))
             (fst (snd (process_event w tc tv st nts tick e)))
             (tick + length (snd (snd (process_event w tc tv st nts tick e)))) es),
      (e, snd (snd (process_event w tc tv st nts tick e))) #
      snd (loop w tc tv (fst (process_event w tc tv st nts tick e))
             (fst (snd (process_event w tc tv st nts tick e)))
             (tick + length (snd (snd (process_event w tc tv st nts tick e)))) es))"
  by (simp split: prod.splits)

lemma loop_events: "map fst (snd (loop w tc tv st nts tick es)) = es"
  by (induction es arbitrary: st nts tick) (simp_all add: loop_Cons del: loop.simps(2))

lemma run_dry:
  assumes "\<not> setup_twitter cfg"
  shows "final_state (run w cfg st) = st"
    and "\<forall>a \<in> set (trace (run w cfg st)).
           \<not> is_media_upload a \<and> \<not> is_create_tweet a \<and> \<not> is_save_state a"
proof -
  let ?pre = "map AddRelay (NOSTR_RELAYS cfg) @
     [Connect, FetchEvents (MONITORED_NPUBS cfg) (last_synced_timestamp st + 1)]"
  let ?es = "sort_key created_at
     (fetch_events w (MONITORED_NPUBS cfg) (last_synced_timestamp st + 1))"
  obtain st' iters where l:
    "loop w False False st (last_synced_timestamp st) (length ?pre) ?es = (st', iters)"
    by (cases "loop w False False st (last_synced_timestamp st) (length ?pre) ?es") auto
  note d = loop_dry[OF l]
  have pre: "\<forall>a \<in> set ?pre. \<not> is_media_upload a \<and> \<not> is_create_tweet a \<and> \<not> is_save_state a"
    by auto
  from assms l d show "final_state (run w cfg st) = st"
    by (auto simp: run_def Let_def)
  from assms l d pre show "\<forall>a \<in> set (trace (run w cfg st)).
           \<not> is_media_upload a \<and> \<not> is_create_tweet a \<and> \<not> is_save_state a"
    by (auto simp: run_def Let_def trace_def list_all_iff)
qed

lemma run_events:
  "map fst (iterations (run w cfg st)) =
     (if MONITORED_NPUBS cfg = [] then []
      else sort_key created_at
             (fetch_events w (MONITORED_NPUBS cfg) (last_synced_timestamp st + 1)))"
proof -
  have "\<And>tw n es. map fst (snd (loop w tw tw st (last_synced_timestamp st) n es)) = es"
    by (rule loop_events)
  then show ?thesis
    by (auto simp: run_def Let_def split: prod.splits) (metis snd_conv)
qed

lemma sorted_run_events: "sorted (map created_at (map fst (iterations (run w cfg st))))"
  by (simp only: run_events) (simp del: map_map)


section \<open>Claims about the loop\<close>

text \<open>
  C1: when the creation of the tweet raises for an event, the iteration leaves the state
  as it was (no id appended, the timestamp and \<open>new_last_ts\<close> unchanged), saves nothing,
  and the loop goes on with the next event from that same state.
\<close>

theorem failed_tweet_keeps_checkpoint:
  assumes "process_event w tc tv st nts tick e = (st', nts', acts)"
    and "CreateTweet text mids False \<in> set acts"
  shows "st' = st \<and> nts' = nts \<and> (\<forall>s. SaveState s \<notin> set acts) \<and>
         loop w tc tv st nts tick (e # es) =
           (fst (loop w tc tv st nts (tick + length acts) es),
            (e, acts) # snd (loop w tc tv st nts (tick + length acts) es))"
  using assms(1)
proof (cases rule: process_event_cases)
  case skipped
  with assms(2) show ?thesis by simp
next
  case (dry clean urls m t a)
  with assms(2) show ?thesis by (auto dest: media_loop_no_tweet)
next
  case (failed clean urls m t a)
  then show ?thesis using assms(1) by (auto dest: media_loop_no_save split: prod.splits)
next
  case (published clean urls m t a)
  with assms(2) show ?thesis by (auto dest: media_loop_no_tweet)
qed

theorem failed_tweet_keeps_checkpoint_witness:
  "process_event failing_world True True sample_state 50 0 sample_event =
     (sample_state, 50,
      [DownloadMedia ''https://x.com/a.jpg'' None, CreateTweet ''gm'' [] False, Sleep]) \<and>
   CreateTweet ''gm'' [] False \<in>
     set [DownloadMedia ''https://x.com/a.jpg'' None, CreateTweet ''gm'' [] False, Sleep] \<and>
   (sample_state = sample_state \<and> (50::int) = 50 \<and>
    (\<forall>s. SaveState s \<notin>
       set [DownloadMedia ''https://x.com/a.jpg'' None, CreateTweet ''gm'' [] False, Sleep]) \<and>
    loop failing_world True True sample_state 50 0 [sample_event, sample_duplicate] =
      (fst (loop failing_world True True sample_state 50
              (0 + length [DownloadMedia ''https://x.com/a.jpg'' None,
                           CreateTweet ''gm'' [] False, Sleep]) [sample_duplicate]),
       (sample_event,
        [DownloadMedia ''https://x.com/a.jpg'' None, CreateTweet ''gm'' [] False, Sleep]) #
       snd (loop failing_world True True sample_state 50
              (0 + length [DownloadMedia ''https://x.com/a.jpg'' None,
                           CreateTweet ''gm'' [] False, Sleep]) [sample_duplicate])))"
proof -
  have h1: "process_event failing_world True True sample_state 50 0 sample_event =
     (sample_state, 50,
      [DownloadMedia ''https://x.com/a.jpg'' None, CreateTweet ''gm'' [] False, Sleep])"
    by code_simp
  have h2: "CreateTweet ''gm'' [] False \<in>
     set [DownloadMedia ''https://x.com/a.jpg'' None, CreateTweet ''gm'' [] False, Sleep]"
    by simp
  show ?thesis
    by (rule conjI[OF h1 conjI[OF h2 failed_tweet_keeps_checkpoint[OF h1 h2]]])
qed

text \<open>
  C2: an event whose id is in \<open>synced_event_ids\<close> when its iteration starts is left by
  \<open>continue\<close>: the iteration makes no call at all (no upload, no tweet) and changes
  nothing, whatever the timestamp of the event is.
\<close>

theorem duplicate_never_published:
  assumes "event_id e \<in> set (synced_event_ids st)"
  shows "process_event w tc tv st nts tick e = (st, nts, []) \<and>
         loop w tc tv st nts tick (e # es) =
           (fst (loop w tc tv st nts tick es), (e, []) # snd (loop w tc tv st nts tick es))"
  using assms by (simp add: process_event_skip split: prod.splits)

theorem duplicate_never_published_witness:
  "event_id sample_duplicate \<in> set (synced_event_ids sample_state) \<and>
   (process_event ok_world True True sample_state 50 0 sample_duplicate = (sample_state, 50, []) \<and>
    loop ok_world True True sample_state 50 0 [sample_duplicate, sample_event] =
      (fst (loop ok_world True True sample_state 50 0 [sample_event]),
       (sample_duplicate, []) # snd (loop ok_world True True sample_state 50 0 [sample_event])))"
proof -
  have h: "event_id sample_duplicate \<in> set (synced_event_ids sample_state)"
    by (simp add: sample_duplicate_def sample_state_def)
  show ?thesis
    by (rule conjI[OF h duplicate_never_published[OF h]])
qed

section \<open>Claims about a run\<close>

text \<open>
  C3: the loop goes through the fetched events sorted by \<open>created_at\<close>, oldest first, so the
  timestamps of the iterations, and of those iterations that make a publish call, are
  ascending, in whatever order the relays returned the events.
\<close>

theorem publish_calls_ascending:
  "map fst (iterations (run w cfg st)) =
     (if MONITORED_NPUBS cfg = [] then []
      else sort_key created_at
             (fetch_events w (MONITORED_NPUBS cfg) (last_synced_timestamp st + 1))) \<and>
   sorted (map (\<lambda>it. created_at (fst it)) (iterations (run w cfg st))) \<and>
   sorted (publish_order (run w cfg st))"
proof -
  have s: "sorted (map (\<lambda>it. created_at (fst it)) (iterations (run w cfg st)))"
    using sorted_run_events[of w cfg st] by (simp add: comp_def)
  have "sorted (map (\<lambda>it. created_at (fst it))
          (filter (\<lambda>it. list_ex is_publish (snd it)) (iterations (run w cfg st))))"
    by (rule sorted_filter[OF s])
  with s run_events show ?thesis by (simp add: publish_order_def)
qed

theorem publish_calls_ascending_witness:
  "fetch_events ok_world [''npub1abc''] 51 = [note3, note1, note2] \<and>
   publish_order (run ok_world sample_config sample_state) = [101, 102, 103] \<and>
   sorted (publish_order (run ok_world sample_config sample_state))"
proof -
  have a: "fetch_events ok_world [''npub1abc''] 51 = [note3, note1, note2]"
    by code_simp
  have b: "publish_order (run ok_world sample_config sample_state) = [101, 102, 103]"
    by code_simp
  from publish_calls_ascending[of ok_world sample_config sample_state]
  have c: "sorted (publish_order (run ok_world sample_config sample_state))"
    by (rule conjunct2[OF conjunct2])
  show ?thesis by (rule conjI[OF a conjI[OF b c]])
qed




text \<open>
  C7: when one of the four credentials is unset (or empty), the run makes no media
  upload and creates no tweet, saves no state, and ends with the state it started with.
\<close>

theorem dry_run_changes_nothing:
  assumes "\<not> truthy (TWITTER_API_KEY cfg) \<or> \<not> truthy (TWITTER_API_SECRET cfg) \<or>
           \<not> truthy (TWITTER_ACCESS_TOKEN cfg) \<or> \<not> truthy (TWITTER_ACCESS_SECRET cfg)"
  shows "list_all (\<lambda>a. \<not> is_media_upload a \<and> \<not> is_create_tweet a \<and> \<not> is_save_state a)
           (trace (run w cfg st)) \<and>
         final_state (run w cfg st) = st \<and>
         synced_event_ids (final_state (run w cfg st)) = synced_event_ids st \<and>
         last_synced_timestamp (final_state (run w cfg st)) = last_synced_timestamp st"
proof -
  from assms have "\<not> setup_twitter cfg" by (auto simp: setup_twitter_def)
  from run_dry[OF this] show ?thesis by (simp add: list_all_iff)
qed

theorem dry_run_changes_nothing_witness:
  "TWITTER_ACCESS_TOKEN dry_config = None \<and>
   list_all (\<lambda>a. \<not> is_media_upload a \<and> \<not> is_create_tweet a \<and> \<not> is_save_state a)
     (trace (run ok_world dry_config sample_state)) \<and>
   final_state (run ok_world dry_config sample_state) = sample_state \<and>
   synced_event_ids (final_state (run ok_world dry_config sample_state)) =
     synced_event_ids sample_state \<and>
   last_synced_timestamp (final_state (run ok_world dry_config sample_state)) =
     last_synced_timestamp sample_state"
proof -
  have n: "TWITTER_ACCESS_TOKEN dry_config = None"
    by (simp add: dry_config_def load_config_def)
  then have h: "\<not> truthy (TWITTER_API_KEY dry_config) \<or> \<not> truthy (TWITTER_API_SECRET dry_config) \<or>
    \<not> truthy (TWITTER_ACCESS_TOKEN dry_config) \<or> \<not> truthy (TWITTER_ACCESS_SECRET dry_config)"
    by simp
  show ?thesis by (rule conjI[OF n dry_run_changes_nothing[OF h]])
qed

section \<open>The checkpoint\<close>

lemma save_state_ts [simp]: "last_synced_timestamp (save_state s) = last_synced_timestamp s"
  by (simp add: save_state_def)




lemma last_saved_none: "list_all (\<lambda>a. \<not> is_save_state a) acts \<Longrightarrow> last_saved acts = None"
  by (induction acts) (auto split: action.splits)


lemma last_saved_Remove [simp]: "last_saved (map Remove t) = None"
  by (rule last_saved_none) (auto simp: list_all_iff)

lemma not_posted_Remove [simp]: "\<not> list_ex is_posted (map Remove t)"
  by (induction t) auto



























section \<open>The same id twice in a batch\<close>















end
